theory Spec2Isabelle
  imports Main "HOL-Library.Signed_Division"
begin

section \<open>The console Snake game of game1.cpp\<close>

text \<open>
  The program keeps its whole state in global variables. The model collects them in one
  record that every operation takes and returns. The C type \<open>int\<close> is modelled by the
  unbounded integers: the coordinates the program computes lie between \<open>-1\<close> and \<open>40\<close>
  and the score grows by 10 for each of at most 797 pieces of food, far from the limits
  of a 32-bit integer. C's \<open>/\<close> and \<open>%\<close> truncate towards zero; they are \<open>sdiv\<close> and
  \<open>smod\<close>.
\<close>

subsection \<open>Globals\<close>

definition width :: int where
  "width = 40"

definition height :: int where
  "height = 20"

datatype Direction = STOP | LEFT | RIGHT | UP | DOWN

type_synonym cell = "int \<times> int"

text \<open>
  \<open>snake\<close> is the deque, its front (the head) first. The hidden state of \<open>rand()\<close> is
  the sequence \<open>randseq\<close> of the numbers that successive calls return (each of them
  non-negative, hence a \<open>nat\<close>) together with the number \<open>randpos\<close> of calls made so far.
\<close>

record game =
  gameOver :: bool
  score :: int
  dir :: Direction
  food :: cell
  snake :: "cell list"
  randseq :: "nat \<Rightarrow> nat"
  randpos :: nat

text \<open>The globals as static initialisation leaves them, before \<open>main\<close> runs.\<close>

definition globals0 :: "(nat \<Rightarrow> nat) \<Rightarrow> game" where
  "globals0 rs = \<lparr> gameOver = False, score = 0, dir = STOP, food = (0, 0), snake = [],
                   randseq = rs, randpos = 0 \<rparr>"

subsection \<open>placeFood\<close>

text \<open>
  The loop over the deque that sets the flag \<open>onSnake\<close> in \<open>placeFood\<close>; the
  self-collision loop of \<open>logic\<close> scans the deque with the same test.
\<close>

fun onSnake :: "cell list \<Rightarrow> int \<Rightarrow> int \<Rightarrow> bool" where
  "onSnake [] fx fy = False"
| "onSnake (s # ss) fx fy = (if fst s = fx \<and> snd s = fy then True else onSnake ss fx fy)"

text \<open>
  \<open>while (true)\<close>: the loop leaves only through the \<open>break\<close> after a free cell was drawn.
  A run that never leaves it is the value \<open>None\<close>.
\<close>

partial_function (option) placeFood :: "game \<Rightarrow> game option" where
  "placeFood g =
     (let fx = int (randseq g (randpos g)) smod width;
          fy = int (randseq g (randpos g + 1)) smod height;
          g1 = g\<lparr>randpos := randpos g + 2\<rparr>
      in if onSnake (snake g1) fx fy then placeFood g1
         else Some (g1\<lparr>food := (fx, fy)\<rparr>))"

declare placeFood.simps [code]

subsection \<open>initGame\<close>

text \<open>
  \<open>srand(time)\<close> reseeds the generator: \<open>rs\<close> is the sequence that \<open>rand()\<close> yields from
  then on. Setting the terminal mode is input/output and has no part in the model.
\<close>

definition initGame :: "(nat \<Rightarrow> nat) \<Rightarrow> game \<Rightarrow> game option" where
  "initGame rs g =
     (let g1 = g\<lparr>randseq := rs, randpos := 0\<rparr>;
          g2 = g1\<lparr>snake := []\<rparr>;
          sx = width sdiv 2;
          sy = height sdiv 2;
          g3 = g2\<lparr>snake := snake g2 @ [(sx, sy)]\<rparr>;
          g4 = g3\<lparr>snake := snake g3 @ [(sx - 1, sy)]\<rparr>;
          g5 = g4\<lparr>snake := snake g4 @ [(sx - 2, sy)]\<rparr>;
          g6 = g5\<lparr>dir := RIGHT\<rparr>;
          g7 = g6\<lparr>score := 0\<rparr>
      in case placeFood g7 of
           None \<Rightarrow> None
         | Some g8 \<Rightarrow> Some (g8\<lparr>gameOver := False\<rparr>))"

subsection \<open>input\<close>

text \<open>
  The POSIX build. The bytes waiting on standard input are a list: \<open>kbhit_nonblocking\<close>
  is true when it is not empty and \<open>getch_nonblocking\<close> takes its first byte (0 when
  there is none). \<open>input\<close> returns the bytes it left unread and the new state.
\<close>

definition kbhit_nonblocking :: "char list \<Rightarrow> bool" where
  "kbhit_nonblocking kb = (kb \<noteq> [])"

definition getch_nonblocking :: "char list \<Rightarrow> char \<times> char list" where
  "getch_nonblocking kb = (case kb of [] \<Rightarrow> (CHR 0x00, []) | c # cs \<Rightarrow> (c, cs))"

definition input :: "char list \<Rightarrow> game \<Rightarrow> char list \<times> game" where
  "input kb g =
     (if \<not> kbhit_nonblocking kb then (kb, g)
      else let (c, kb1) = getch_nonblocking kb in
        if c = CHR 0x00 then (kb1, g)
        else if c = CHR 0x1B then
          (if kbhit_nonblocking kb1 then
             let (c2, kb2) = getch_nonblocking kb1 in
               if kbhit_nonblocking kb2 then
                 let (c3, kb3) = getch_nonblocking kb2 in
                   if c2 = CHR ''['' then
                     (if c3 = CHR ''A'' then (kb3, g\<lparr>dir := UP\<rparr>)
                      else if c3 = CHR ''B'' then (kb3, g\<lparr>dir := DOWN\<rparr>)
                      else if c3 = CHR ''C'' then (kb3, g\<lparr>dir := RIGHT\<rparr>)
                      else if c3 = CHR ''D'' then (kb3, g\<lparr>dir := LEFT\<rparr>)
                      else (kb3, g))
                   else (kb3, g)
               else (kb2, g)
           else (kb1, g))
        else if c = CHR ''w'' \<or> c = CHR ''W'' then
          (if dir g \<noteq> DOWN then (kb1, g\<lparr>dir := UP\<rparr>) else (kb1, g))
        else if c = CHR ''s'' \<or> c = CHR ''S'' then
          (if dir g \<noteq> UP then (kb1, g\<lparr>dir := DOWN\<rparr>) else (kb1, g))
        else if c = CHR ''a'' \<or> c = CHR ''A'' then
          (if dir g \<noteq> RIGHT then (kb1, g\<lparr>dir := LEFT\<rparr>) else (kb1, g))
        else if c = CHR ''d'' \<or> c = CHR ''D'' then
          (if dir g \<noteq> LEFT then (kb1, g\<lparr>dir := RIGHT\<rparr>) else (kb1, g))
        else if c = CHR ''q'' \<or> c = CHR ''Q'' then (kb1, g\<lparr>gameOver := True\<rparr>)
        else (kb1, g))"

subsection \<open>logic\<close>

text \<open>
  \<open>snake.front()\<close> on an empty deque has no defined behaviour, and the call of
  \<open>placeFood\<close> may never return: both are outcomes of their own.
\<close>

datatype fault = EmptyFront | NoReturn

text \<open>The \<open>switch (dir)\<close> that moves the copy of the head's coordinates.\<close>

fun newHead :: "Direction \<Rightarrow> cell \<Rightarrow> cell" where
  "newHead LEFT (hx, hy) = (hx - 1, hy)"
| "newHead RIGHT (hx, hy) = (hx + 1, hy)"
| "newHead UP (hx, hy) = (hx, hy - 1)"
| "newHead DOWN (hx, hy) = (hx, hy + 1)"
| "newHead STOP (hx, hy) = (hx, hy)"

definition logic :: "game \<Rightarrow> fault + game" where
  "logic g =
     (case snake g of
        [] \<Rightarrow> Inl EmptyFront
      | head # _ \<Rightarrow>
          let (hx, hy) = newHead (dir g) (fst head, snd head) in
            if hx < 0 \<or> hx \<ge> width \<or> hy < 0 \<or> hy \<ge> height
              then Inr (g\<lparr>gameOver := True\<rparr>)
            else if onSnake (snake g) hx hy
              then Inr (g\<lparr>gameOver := True\<rparr>)
            else
              let g1 = g\<lparr>snake := (hx, hy) # snake g\<rparr> in
                if hx = fst (food g1) \<and> hy = snd (food g1) then
                  (case placeFood (g1\<lparr>score := score g1 + 10\<rparr>) of
                     None \<Rightarrow> Inl NoReturn
                   | Some g2 \<Rightarrow> Inr g2)
                else Inr (g1\<lparr>snake := butlast (snake g1)\<rparr>))"

subsection \<open>The frame delay of main\<close>

text \<open>The two statements of the main loop that compute \<open>delay\<close> from \<open>score\<close>.\<close>

definition baseDelayMs :: int where
  "baseDelayMs = 120"

definition frameDelay :: "int \<Rightarrow> int" where
  "frameDelay sc =
     (let delay = baseDelayMs - min 80 (sc sdiv 5)
      in if delay < 40 then 40 else delay)"

subsection \<open>The main loop\<close>

text \<open>
  \<open>main\<close> calls \<open>initGame\<close> (again, on the old globals, when the player asks for another
  game) and then, while \<open>gameOver\<close> is false, \<open>input\<close> and \<open>logic\<close> in turn. The states
  the globals can be in at any of these points are among the following ones.
\<close>

inductive reachable :: "game \<Rightarrow> bool" where
  init: "initGame rs g0 = Some g \<Longrightarrow> reachable g"
| key: "reachable g \<Longrightarrow> \<not> gameOver g \<Longrightarrow> reachable (snd (input kb g))"
| tick: "reachable g \<Longrightarrow> logic g = Inr g' \<Longrightarrow> reachable g'"

subsection \<open>Notions used to state the properties\<close>

text \<open>The cell that the \<open>k\<close>-th round of the loop of \<open>placeFood\<close> draws, counted from 0.\<close>

definition drawn :: "game \<Rightarrow> nat \<Rightarrow> cell" where
  "drawn g k = (int (randseq g (randpos g + 2 * k)) smod width,
                int (randseq g (randpos g + 2 * k + 1)) smod height)"

text \<open>The cells of the grid, and those of them that the snake does not cover.\<close>

definition inGrid :: "cell \<Rightarrow> bool" where
  "inGrid c = (0 \<le> fst c \<and> fst c < width \<and> 0 \<le> snd c \<and> snd c < height)"

definition allCells :: "cell list" where
  "allCells = concat (map (\<lambda>y. map (\<lambda>x. (x, y)) [0..width - 1]) [0..height - 1])"

definition freeCells :: "game \<Rightarrow> cell list" where
  "freeCells g = filter (\<lambda>c. \<not> onSnake (snake g) (fst c) (snd c)) allCells"

subsection \<open>Concrete states\<close>

definition someRand :: "nat \<Rightarrow> nat" where
  "someRand n = 7 * n + 5"

text \<open>The state that \<open>initGame\<close> produces when \<open>rand()\<close> follows \<open>someRand\<close>.\<close>

definition startState :: game where
  "startState = \<lparr> gameOver = False, score = 0, dir = RIGHT, food = (5, 12),
                   snake = [(20, 10), (19, 10), (18, 10)],
                   randseq = someRand, randpos = 2 \<rparr>"

text \<open>The food lies right in front of the head.\<close>

definition eatState :: game where
  "eatState = startState\<lparr>food := (21, 10)\<rparr>"

text \<open>The head is in the last column and moves right.\<close>

definition wallState :: game where
  "wallState = startState\<lparr>snake := [(39, 10), (38, 10), (37, 10)]\<rparr>"

text \<open>A snake of four cells coiled in a square: moving left, the head meets the tail.\<close>

definition coilState :: game where
  "coilState = startState\<lparr>snake := [(20, 10), (20, 11), (19, 11), (19, 10)], dir := LEFT\<rparr>"

text \<open>
  The end of a perfect game. The snake winds through the grid row by row, left to right
  in the even rows and back in the odd ones, and covers every cell but \<open>(0, 0)\<close>, where
  the food lies; the head is at \<open>(1, 0)\<close> and moves left.
\<close>

definition winding :: "int \<Rightarrow> cell list" where
  "winding y = (if even y then map (\<lambda>x. (x, y)) [0..width - 1]
                else map (\<lambda>x. (x, y)) (rev [0..width - 1]))"

definition lastFoodState :: game where
  "lastFoodState =
     \<lparr> gameOver = False, score = 7960, dir = LEFT, food = (0, 0),
       snake = (1, 0) # map (\<lambda>x. (x, 0)) [2..width - 1] @ concat (map winding [1..height - 1]),
       randseq = someRand, randpos = 0 \<rparr>"

text \<open>The globals when that tick calls \<open>placeFood\<close>: head pushed, score raised.\<close>

definition fullState :: game where
  "fullState = lastFoodState\<lparr>snake := (0, 0) # snake lastFoodState,
                              score := score lastFoodState + 10\<rparr>"

section \<open>Auxiliary facts\<close>

lemma onSnake_iff: "onSnake xs fx fy = ((fx, fy) \<in> set xs)"
  by (induction xs) auto

lemma smod_nat: "0 < b \<Longrightarrow> int n smod b = int n mod b"
  by (cases "n = 0") (simp_all add: signed_modulo_int_def)

lemma drawn_inGrid: "inGrid (drawn g k)"
  by (simp add: inGrid_def drawn_def smod_nat width_def height_def)

lemma drawn_shift:
  "drawn (g\<lparr>randpos := randpos g + 2\<rparr>) k = drawn g (Suc k)"
  "drawn (g\<lparr>randpos := Suc (Suc (randpos g))\<rparr>) k = drawn g (Suc k)"
  by (simp_all add: drawn_def)

lemma drawn_frame [simp]:
  "drawn (g\<lparr>snake := xs\<rparr>) k = drawn g k"
  "drawn (g\<lparr>score := sc\<rparr>) k = drawn g k"
  "drawn (g\<lparr>dir := d\<rparr>) k = drawn g k"
  "drawn (g\<lparr>gameOver := b\<rparr>) k = drawn g k"
  by (simp_all add: drawn_def)

lemma set_allCells: "set allCells = {c. inGrid c}"
  by (auto simp: allCells_def inGrid_def)

lemma set_freeCells: "set (freeCells g) = {c. inGrid c \<and> c \<notin> set (snake g)}"
  by (auto simp: freeCells_def set_allCells onSnake_iff)

subsection \<open>The loop of placeFood\<close>

lemma placeFood_unfold:
  "placeFood g =
     (if drawn g 0 \<in> set (snake g) then placeFood (g\<lparr>randpos := randpos g + 2\<rparr>)
      else Some (g\<lparr>randpos := randpos g + 2, food := drawn g 0\<rparr>))"
  by (subst placeFood.simps) (simp add: Let_def onSnake_iff drawn_def)

text \<open>The loop leaves in the first round that draws a cell off the snake.\<close>

lemma placeFood_first_free:
  "\<forall>j<k. drawn g j \<in> set (snake g) \<Longrightarrow> drawn g k \<notin> set (snake g) \<Longrightarrow>
     placeFood g = Some (g\<lparr>randpos := randpos g + 2 * (k + 1), food := drawn g k\<rparr>)"
proof (induction k arbitrary: g)
  case 0
  then show ?case by (subst placeFood_unfold) simp
next
  case (Suc k)
  let ?g1 = "g\<lparr>randpos := randpos g + 2\<rparr>"
  have hit: "drawn g 0 \<in> set (snake g)" using Suc.prems(1) by blast
  have "\<forall>j<k. drawn ?g1 j \<in> set (snake ?g1)"
    using Suc.prems(1) by (simp add: drawn_shift)
  moreover have "drawn ?g1 k \<notin> set (snake ?g1)"
    using Suc.prems(2) by (simp add: drawn_shift)
  ultimately have "placeFood ?g1 =
      Some (?g1\<lparr>randpos := randpos ?g1 + 2 * (k + 1), food := drawn ?g1 k\<rparr>)"
    by (rule Suc.IH)
  with hit show ?case
    by (subst placeFood_unfold) (simp add: drawn_shift)
qed

text \<open>It leaves only if some round does.\<close>

lemma placeFood_Some_free:
  assumes "placeFood g = Some g'"
  shows "\<exists>k. drawn g k \<notin> set (snake g)"
proof (rule placeFood.raw_induct
    [where P = "\<lambda>x y. \<exists>k. drawn x k \<notin> set (snake x)", OF _ assms], goal_cases)
  case (1 f g g')
  show ?case
  proof (cases "drawn g 0 \<in> set (snake g)")
    case False
    then show ?thesis by blast
  next
    case True
    with 1(2) have "f (g\<lparr>randpos := Suc (Suc (randpos g))\<rparr>) = Some g'"
      by (simp add: Let_def onSnake_iff drawn_def)
    then have "\<exists>k. drawn (g\<lparr>randpos := Suc (Suc (randpos g))\<rparr>) k
                 \<notin> set (snake (g\<lparr>randpos := Suc (Suc (randpos g))\<rparr>))"
      by (rule 1(1))
    then obtain k where "drawn g (Suc k) \<notin> set (snake g)"
      by (auto simp: drawn_shift)
    then show ?thesis by blast
  qed
qed

lemma placeFood_None_iff:
  "placeFood g = None \<longleftrightarrow> (\<forall>k. drawn g k \<in> set (snake g))"
proof
  assume "placeFood g = None"
  show "\<forall>k. drawn g k \<in> set (snake g)"
  proof (rule ccontr)
    assume "\<not> (\<forall>k. drawn g k \<in> set (snake g))"
    then obtain k where k: "drawn g k \<notin> set (snake g)" by blast
    define m where "m = (LEAST k. drawn g k \<notin> set (snake g))"
    have "drawn g m \<notin> set (snake g)"
      unfolding m_def using k by (rule LeastI)
    moreover have "\<forall>j<m. drawn g j \<in> set (snake g)"
      unfolding m_def using not_less_Least by blast
    ultimately have "placeFood g \<noteq> None"
      by (simp add: placeFood_first_free)
    with \<open>placeFood g = None\<close> show False by contradiction
  qed
next
  assume "\<forall>k. drawn g k \<in> set (snake g)"
  then show "placeFood g = None"
    using placeFood_Some_free [of g] by (cases "placeFood g") auto
qed

text \<open>What the state is when the loop has left.\<close>

lemma placeFood_Some_result:
  assumes "placeFood g = Some g'"
  shows "\<exists>k. g' = g\<lparr>randpos := randpos g + 2 * (k + 1), food := drawn g k\<rparr>
             \<and> drawn g k \<notin> set (snake g)"
proof -
  from assms obtain k where k: "drawn g k \<notin> set (snake g)"
    using placeFood_Some_free by blast
  define m where "m = (LEAST k. drawn g k \<notin> set (snake g))"
  have free: "drawn g m \<notin> set (snake g)"
    unfolding m_def using k by (rule LeastI)
  moreover have "\<forall>j<m. drawn g j \<in> set (snake g)"
    unfolding m_def using not_less_Least by blast
  ultimately have "placeFood g = Some (g\<lparr>randpos := randpos g + 2 * (m + 1), food := drawn g m\<rparr>)"
    by (simp add: placeFood_first_free)
  with assms free show ?thesis by auto
qed

lemma placeFood_full:
  assumes "freeCells g = []"
  shows "placeFood g = None"
proof -
  have "drawn g k \<in> set (snake g)" for k
  proof -
    have "drawn g k \<notin> set (freeCells g)" using assms by simp
    then show ?thesis by (simp add: set_freeCells drawn_inGrid)
  qed
  then show ?thesis by (simp add: placeFood_None_iff)
qed

subsection \<open>One tick\<close>

text \<open>The body of \<open>logic\<close>, branch by branch, for a snake that has a head.\<close>

lemma logic_cases:
  assumes "snake g = h # t" and "newHead (dir g) h = nh"
  shows "logic g =
    (if \<not> inGrid nh then Inr (g\<lparr>gameOver := True\<rparr>)
     else if nh \<in> set (snake g) then Inr (g\<lparr>gameOver := True\<rparr>)
     else if nh = food g then
       (case placeFood (g\<lparr>snake := nh # snake g, score := score g + 10\<rparr>) of
          None \<Rightarrow> Inl NoReturn
        | Some g2 \<Rightarrow> Inr g2)
     else Inr (g\<lparr>snake := nh # butlast (snake g)\<rparr>))"
proof -
  obtain hx hy where nh: "nh = (hx, hy)" by (cases nh)
  have step: "newHead (dir g) (fst h, snd h) = (hx, hy)"
    using assms(2) nh by simp
  obtain fx fy where fd: "food g = (fx, fy)" by (cases "food g")
  show ?thesis
    unfolding logic_def assms(1) list.case step Let_def prod.case
    using assms(1)
    by (auto simp: nh fd inGrid_def onSnake_iff not_le not_less)
qed

lemma logic_eat:
  assumes "snake g = h # t" and "newHead (dir g) h = nh"
    and "inGrid nh" and "nh \<notin> set (snake g)" and "nh = food g"
  shows "(\<forall>k. drawn g k \<in> set (nh # snake g)) \<Longrightarrow> logic g = Inl NoReturn"
    and "drawn g k \<notin> set (nh # snake g) \<Longrightarrow>
         \<exists>j. logic g = Inr (g\<lparr>snake := nh # snake g, score := score g + 10,
                              randpos := randpos g + 2 * (j + 1), food := drawn g j\<rparr>)
             \<and> drawn g j \<notin> set (nh # snake g)"
proof -
  let ?g1 = "g\<lparr>snake := nh # snake g, score := score g + 10\<rparr>"
  have eq: "logic g = (case placeFood ?g1 of None \<Rightarrow> Inl NoReturn | Some g2 \<Rightarrow> Inr g2)"
    using assms(3-5) by (subst logic_cases [OF assms(1,2)]) simp
  {
    assume "\<forall>k. drawn g k \<in> set (nh # snake g)"
    then have "placeFood ?g1 = None"
      by (simp add: placeFood_None_iff)
    then show "logic g = Inl NoReturn" by (simp add: eq)
  }
  {
    assume "drawn g k \<notin> set (nh # snake g)"
    then have "placeFood ?g1 \<noteq> None"
      by (auto simp: placeFood_None_iff)
    then obtain g2 where g2: "placeFood ?g1 = Some g2" by blast
    from placeFood_Some_result [OF g2] obtain j where
      "g2 = ?g1\<lparr>randpos := randpos ?g1 + 2 * (j + 1), food := drawn ?g1 j\<rparr>"
      "drawn ?g1 j \<notin> set (snake ?g1)" by blast
    then show "\<exists>j. logic g = Inr (g\<lparr>snake := nh # snake g, score := score g + 10,
                              randpos := randpos g + 2 * (j + 1), food := drawn g j\<rparr>)
             \<and> drawn g j \<notin> set (nh # snake g)"
      using g2 by (auto simp: eq)
  }
qed

text \<open>Every way in which a tick can return.\<close>

lemma logic_Inr_cases:
  assumes "logic g = Inr g'"
  obtains (over) "g' = g\<lparr>gameOver := True\<rparr>"
  | (move) nh where "inGrid nh" and "nh \<notin> set (snake g)"
      and "g' = g\<lparr>snake := nh # butlast (snake g)\<rparr>"
  | (eat) nh j where "inGrid nh" and "nh \<notin> set (snake g)"
      and "g' = g\<lparr>snake := nh # snake g, score := score g + 10,
                   randpos := randpos g + 2 * (j + 1), food := drawn g j\<rparr>"
      and "drawn g j \<notin> set (nh # snake g)"
proof (cases "snake g")
  case Nil
  with assms show ?thesis by (simp add: logic_def)
next
  case (Cons h t)
  define nh where "nh = newHead (dir g) h"
  note lc = logic_cases [OF Cons nh_def [symmetric]]
  consider "\<not> inGrid nh \<or> nh \<in> set (snake g)"
    | "inGrid nh" "nh \<notin> set (snake g)" "nh \<noteq> food g"
    | "inGrid nh" "nh \<notin> set (snake g)" "nh = food g" by blast
  then show ?thesis
  proof cases
    case 1
    with assms lc have "g' = g\<lparr>gameOver := True\<rparr>" by (auto split: if_splits)
    then show ?thesis by (rule over)
  next
    case 2
    with assms lc have "g' = g\<lparr>snake := nh # butlast (snake g)\<rparr>" by auto
    with 2(1,2) show ?thesis by (rule move)
  next
    case 3
    show ?thesis
    proof (cases "\<forall>k. drawn g k \<in> set (nh # snake g)")
      case True
      with logic_eat(1) [OF Cons nh_def [symmetric] 3] assms show ?thesis by simp
    next
      case False
      then obtain k where "drawn g k \<notin> set (nh # snake g)" by blast
      from logic_eat(2) [OF Cons nh_def [symmetric] 3 this] assms
      obtain j where "g' = g\<lparr>snake := nh # snake g, score := score g + 10,
                   randpos := randpos g + 2 * (j + 1), food := drawn g j\<rparr>"
        "drawn g j \<notin> set (nh # snake g)" by auto
      with 3(1,2) show ?thesis by (rule eat)
    qed
  qed
qed

lemma logic_distinct:
  assumes "distinct (snake g)" and "logic g = Inr g'"
  shows "distinct (snake g')"
  using assms(2)
proof (cases rule: logic_Inr_cases)
  case over
  with assms(1) show ?thesis by simp
next
  case (move nh)
  with assms(1) show ?thesis
    by (auto simp: distinct_butlast dest: in_set_butlastD)
next
  case (eat nh j)
  with assms(1) show ?thesis by simp
qed

lemma logic_length:
  assumes "logic g = Inr g'"
  shows "length (snake g) \<le> length (snake g')"
  using assms
proof (cases rule: logic_Inr_cases)
  case (move nh)
  moreover have "snake g \<noteq> []" using assms by (auto simp: logic_def)
  ultimately show ?thesis by simp
qed simp_all


subsection \<open>Keys, initialisation and the reachable states\<close>

lemma input_frame:
  "snake (snd (input kb g)) = snake g"
  "food (snd (input kb g)) = food g"
  "score (snd (input kb g)) = score g"
  by (simp_all add: input_def Let_def split: prod.splits)


lemma initGame_Some:
  assumes "initGame rs g0 = Some g"
  shows "snake g = [(20, 10), (19, 10), (18, 10)]" and "dir g = RIGHT"
    and "score g = 0" and "\<not> gameOver g" and "food g \<notin> set (snake g)" and "inGrid (food g)"
proof -
  let ?g7 = "g0\<lparr>randseq := rs, randpos := 0, snake := [(20, 10), (19, 10), (18, 10)],
                 dir := RIGHT, score := 0\<rparr>"
  have "initGame rs g0 = (case placeFood ?g7 of None \<Rightarrow> None
                          | Some g8 \<Rightarrow> Some (g8\<lparr>gameOver := False\<rparr>))"
    by (simp add: initGame_def Let_def width_def height_def signed_divide_int_def)
  with assms obtain g8 where g8: "placeFood ?g7 = Some g8" and g: "g = g8\<lparr>gameOver := False\<rparr>"
    by (auto split: option.splits)
  from placeFood_Some_result [OF g8] obtain k where
    k: "g8 = ?g7\<lparr>randpos := randpos ?g7 + 2 * (k + 1), food := drawn ?g7 k\<rparr>"
       "drawn ?g7 k \<notin> set (snake ?g7)" by blast
  show "snake g = [(20, 10), (19, 10), (18, 10)]" "dir g = RIGHT" "score g = 0" "\<not> gameOver g"
    using g k(1) by simp_all
  show "food g \<notin> set (snake g)" using g k by simp
  show "inGrid (food g)" using g k(1) by (simp add: drawn_inGrid)
qed


lemma reachable_body: "reachable g \<Longrightarrow> distinct (snake g) \<and> 3 \<le> length (snake g)"
proof (induction rule: reachable.induct)
  case (init rs g0 g)
  then show ?case by (simp add: initGame_Some(1))
next
  case (key g kb)
  then show ?case by (simp add: input_frame)
next
  case (tick g g')
  then show ?case using logic_distinct logic_length by fastforce
qed

text \<open>The body never leaves the grid, so the coordinates stay small.\<close>

lemma reachable_inGrid: "reachable g \<Longrightarrow> \<forall>c \<in> set (snake g). inGrid c"
proof (induction rule: reachable.induct)
  case (init rs g0 g)
  then show ?case
    by (simp add: initGame_Some(1) inGrid_def width_def height_def)
next
  case (key g kb)
  then show ?case by (simp add: input_frame)
next
  case (tick g g')
  from tick.hyps(2) show ?case
  proof (cases rule: logic_Inr_cases)
    case over
    with tick.IH show ?thesis by simp
  next
    case (move nh)
    with tick.IH show ?thesis by (auto dest: in_set_butlastD)
  next
    case (eat nh j)
    with tick.IH show ?thesis by simp
  qed
qed

subsection \<open>The end of a perfect game\<close>

lemma fullState_covered: "inGrid c \<Longrightarrow> c \<in> set (snake fullState)"
proof -
  assume c: "inGrid c"
  obtain x y where xy: "c = (x, y)" by (cases c)
  show ?thesis
  proof (cases "y = 0")
    case True
    consider "x = 0" | "x = 1" | "x \<in> set [2..width - 1]"
      using c xy by (fastforce simp: inGrid_def)
    then show ?thesis
    proof cases
      case 3
      then have "(x, 0) \<in> set (map (\<lambda>x. (x, 0)) [2..width - 1])"
        unfolding set_map by blast
      then show ?thesis by (auto simp: xy True fullState_def lastFoodState_def)
    qed (simp_all add: xy True fullState_def lastFoodState_def)
  next
    case False
    with c xy have "y \<in> set [1..height - 1]" and "(x, y) \<in> set (winding y)"
      by (auto simp: inGrid_def winding_def width_def height_def)
    then have "(x, y) \<in> set (concat (map winding [1..height - 1]))"
      unfolding set_concat set_map by blast
    then show ?thesis by (simp add: xy fullState_def lastFoodState_def)
  qed
qed

lemma fullState_no_free: "freeCells fullState = []"
proof -
  have "set (freeCells fullState) = {}"
    by (auto simp: set_freeCells fullState_covered)
  then show ?thesis by simp
qed

lemma lastFood_free: "(0, 0) \<notin> set (snake lastFoodState)"
  by (auto simp: lastFoodState_def winding_def)

subsection \<open>Runs from the start state\<close>

lemma init_start: "initGame someRand (globals0 someRand) = Some startState"
  unfolding initGame_def Let_def
  by (subst placeFood_unfold)
     (simp add: drawn_def globals0_def someRand_def width_def height_def smod_nat
        signed_divide_int_def startState_def)

lemma placeFood_start:
  "placeFood startState = Some (startState\<lparr>randpos := 4, food := (19, 6)\<rparr>)"
  by (subst placeFood_unfold)
     (simp add: drawn_def startState_def someRand_def width_def height_def smod_nat)

lemma logic_start:
  "logic startState = Inr (startState\<lparr>snake := [(21, 10), (20, 10), (19, 10)]\<rparr>)"
  by (subst logic_cases [where h = "(20, 10)" and nh = "(21, 10)"])
     (simp_all add: startState_def inGrid_def width_def height_def)

text \<open>The letter keys refuse the direction opposite to the current one.\<close>

lemma letter_key_opposite:
  "dir g = RIGHT \<Longrightarrow> input [CHR ''a''] g = ([], g)"
  "dir g = LEFT \<Longrightarrow> input [CHR ''d''] g = ([], g)"
  "dir g = DOWN \<Longrightarrow> input [CHR ''w''] g = ([], g)"
  "dir g = UP \<Longrightarrow> input [CHR ''s''] g = ([], g)"
  by (simp_all add: input_def kbhit_nonblocking_def getch_nonblocking_def)

text \<open>The arrow keys set whatever direction they name.\<close>

lemma arrow_key_sets:
  "input [CHR 0x1B, CHR ''['', CHR ''A''] g = ([], g\<lparr>dir := UP\<rparr>)"
  "input [CHR 0x1B, CHR ''['', CHR ''B''] g = ([], g\<lparr>dir := DOWN\<rparr>)"
  "input [CHR 0x1B, CHR ''['', CHR ''C''] g = ([], g\<lparr>dir := RIGHT\<rparr>)"
  "input [CHR 0x1B, CHR ''['', CHR ''D''] g = ([], g\<lparr>dir := LEFT\<rparr>)"
  by (simp_all add: input_def kbhit_nonblocking_def getch_nonblocking_def)

section \<open>The properties\<close>

text \<open>
  Claim C1, as the code has it. \<open>placeFood\<close> keeps no count of the free cells and has no
  outcome that reports a full board: it returns exactly when some round of its loop draws
  a cell off the snake, and never returns otherwise. In particular it never returns
  when the snake covers the whole grid. Whenever it returns, the food is on a cell of the
  grid that the snake does not cover, and nothing but the food and the state of \<open>rand()\<close>
  has changed.
\<close>

theorem placeFood_outcome:
  "(placeFood g = None \<longleftrightarrow> (\<forall>k. drawn g k \<in> set (snake g)))
   \<and> (freeCells g = [] \<longrightarrow> placeFood g = None)
   \<and> (\<forall>g'. placeFood g = Some g' \<longrightarrow>
         food g' \<in> set (freeCells g) \<and> snake g' = snake g \<and> score g' = score g
         \<and> dir g' = dir g \<and> gameOver g' = gameOver g)"
proof (intro conjI allI impI)
  show "placeFood g = None \<longleftrightarrow> (\<forall>k. drawn g k \<in> set (snake g))"
    by (rule placeFood_None_iff)
next
  assume "freeCells g = []"
  then show "placeFood g = None" by (rule placeFood_full)
next
  fix g'
  assume "placeFood g = Some g'"
  from placeFood_Some_result [OF this] obtain k where
    k: "g' = g\<lparr>randpos := randpos g + 2 * (k + 1), food := drawn g k\<rparr>"
       "drawn g k \<notin> set (snake g)" by blast
  show "food g' \<in> set (freeCells g)"
    using k by (simp add: set_freeCells drawn_inGrid)
  show "snake g' = snake g" "score g' = score g" "dir g' = dir g" "gameOver g' = gameOver g"
    using k(1) by simp_all
qed

text \<open>
  The full board of the perfect game, and the start state, where the first draw \<open>(19, 6)\<close>
  is free.
\<close>

theorem placeFood_outcome_witness:
  "freeCells fullState = [] \<and> placeFood fullState = None
   \<and> placeFood startState = Some (startState\<lparr>randpos := 4, food := (19, 6)\<rparr>)
   \<and> (19, 6) \<in> set (freeCells startState)"
proof -
  have a: "freeCells fullState = []" by (rule fullState_no_free)
  note b = placeFood_start
  from placeFood_outcome [of fullState] a have c: "placeFood fullState = None" by blast
  from placeFood_outcome [of startState] b
  have "food (startState\<lparr>randpos := 4, food := (19, 6)\<rparr>) \<in> set (freeCells startState)"
    by blast
  then have d: "(19, 6) \<in> set (freeCells startState)" by simp
  from a b c d show ?thesis by blast
qed

text \<open>
  Claim C1 as stated fails: on the full board, where the count of free cells is zero,
  \<open>placeFood\<close> does not report anything, it never returns.
\<close>

theorem placeFood_full_board_counterexample:
  "length (freeCells fullState) = 0 \<and> placeFood fullState = None"
  using fullState_no_free placeFood_full by simp

text \<open>
  Claim C2 fails on the arrow keys. The snake moves right. The key \<open>a\<close> asks for the opposite
  direction and is ignored, as the claim says; the escape sequence of the left arrow key,
  \<open>ESC [ D\<close>, asks for the same and is obeyed. The next tick then runs the head into
  the second cell of the body and ends the game.
\<close>

theorem arrow_key_reverses_direction:
  "dir startState = RIGHT
   \<and> input [CHR ''a''] startState = ([], startState)
   \<and> input [CHR 0x1B, CHR ''['', CHR ''D''] startState = ([], startState\<lparr>dir := LEFT\<rparr>)
   \<and> logic (startState\<lparr>dir := LEFT\<rparr>) = Inr (startState\<lparr>dir := LEFT, gameOver := True\<rparr>)"
proof -
  have "logic (startState\<lparr>dir := LEFT\<rparr>) = Inr (startState\<lparr>dir := LEFT, gameOver := True\<rparr>)"
    by (subst logic_cases [where h = "(20, 10)" and nh = "(19, 10)"])
       (simp_all add: startState_def inGrid_def width_def height_def)
  moreover have "dir startState = RIGHT" by (simp add: startState_def)
  ultimately show ?thesis
    by (simp add: input_def kbhit_nonblocking_def getch_nonblocking_def)
qed




text \<open>
  Claim C4, as the code has it. In a running game whose new head is in the grid, off the
  body and on the food, the tick returns exactly when \<open>rand()\<close> at some point draws a
  cell off the grown body. Then the game is still running, the body is the old one with
  the new head in front (one cell longer), the score is 10 higher, and the new food is a
  cell of the grid that differs from every cell of the new body, the new head included.
  When no such cell is ever drawn the tick never returns.
\<close>

theorem tick_eats_food:
  assumes "\<not> gameOver g" and "snake g = h # t" and "newHead (dir g) h = nh"
    and "inGrid nh" and "nh \<notin> set (snake g)" and "nh = food g"
  shows "if \<exists>k. drawn g k \<notin> set (nh # snake g)
         then \<exists>g'. logic g = Inr g' \<and> \<not> gameOver g' \<and> snake g' = nh # snake g
                \<and> length (snake g') = length (snake g) + 1 \<and> score g' = score g + 10
                \<and> inGrid (food g') \<and> food g' \<notin> set (snake g')
         else logic g = Inl NoReturn"
proof (cases "\<exists>k. drawn g k \<notin> set (nh # snake g)")
  case True
  then obtain k where "drawn g k \<notin> set (nh # snake g)" by blast
  from logic_eat(2) [OF assms(2-6) this] obtain j where
    j: "logic g = Inr (g\<lparr>snake := nh # snake g, score := score g + 10,
                        randpos := randpos g + 2 * (j + 1), food := drawn g j\<rparr>)"
       "drawn g j \<notin> set (nh # snake g)" by blast
  have "\<exists>g'. logic g = Inr g' \<and> \<not> gameOver g' \<and> snake g' = nh # snake g
          \<and> length (snake g') = length (snake g) + 1 \<and> score g' = score g + 10
          \<and> inGrid (food g') \<and> food g' \<notin> set (snake g')"
    using j assms(1) by (simp add: drawn_inGrid)
  with True show ?thesis by simp
next
  case False
  then have "logic g = Inl NoReturn"
    using logic_eat(1) [OF assms(2-6)] by blast
  with False show ?thesis by simp
qed

text \<open>The start state with the food in front of the head; the draw \<open>(19, 6)\<close> is free.\<close>

theorem tick_eats_food_witness:
  "\<exists>g'. logic eatState = Inr g' \<and> \<not> gameOver g'
        \<and> snake g' = [(21, 10), (20, 10), (19, 10), (18, 10)]
        \<and> length (snake g') = 4 \<and> score g' = 10
        \<and> inGrid (food g') \<and> food g' \<notin> set (snake g')"
proof -
  have "drawn eatState 0 \<notin> set ((21, 10) # snake eatState)"
    by (simp add: drawn_def eatState_def startState_def someRand_def width_def height_def smod_nat)
  then have ex: "\<exists>k. drawn eatState k \<notin> set ((21, 10) # snake eatState)" by blast
  have "if \<exists>k. drawn eatState k \<notin> set ((21, 10) # snake eatState)
        then \<exists>g'. logic eatState = Inr g' \<and> \<not> gameOver g'
               \<and> snake g' = (21, 10) # snake eatState
               \<and> length (snake g') = length (snake eatState) + 1
               \<and> score g' = score eatState + 10
               \<and> inGrid (food g') \<and> food g' \<notin> set (snake g')
        else logic eatState = Inl NoReturn"
    by (rule tick_eats_food [where h = "(20, 10)" and t = "[(19, 10), (18, 10)]"])
       (simp_all add: eatState_def startState_def inGrid_def width_def height_def)
  with ex have "\<exists>g'. logic eatState = Inr g' \<and> \<not> gameOver g'
               \<and> snake g' = (21, 10) # snake eatState
               \<and> length (snake g') = length (snake eatState) + 1
               \<and> score g' = score eatState + 10
               \<and> inGrid (food g') \<and> food g' \<notin> set (snake g')"
    by (simp only: if_True)
  then obtain g' where "logic eatState = Inr g'" "\<not> gameOver g'"
      "snake g' = (21, 10) # snake eatState" "score g' = score eatState + 10"
      "inGrid (food g')" "food g' \<notin> set (snake g')"
    by blast
  then show ?thesis
    by (intro exI [of _ g']) (simp add: eatState_def startState_def)
qed

text \<open>
  Claim C4 as stated fails when the snake eats the last free cell: the grown body fills
  the grid and the tick never returns, so there is no state after it.
\<close>

theorem tick_eats_food_counterexample:
  "\<not> gameOver lastFoodState
   \<and> newHead (dir lastFoodState) (hd (snake lastFoodState)) = food lastFoodState
   \<and> inGrid (food lastFoodState)
   \<and> \<not> onSnake (snake lastFoodState) 0 0
   \<and> logic lastFoodState = Inl NoReturn"
proof -
  have sn: "snake lastFoodState = (1, 0) # tl (snake lastFoodState)"
    by (simp add: lastFoodState_def)
  have nh: "newHead (dir lastFoodState) (1, 0) = (0, 0)"
    by (simp add: lastFoodState_def)
  have fd: "food lastFoodState = (0, 0)" by (simp add: lastFoodState_def)
  have full: "drawn lastFoodState k \<in> set ((0, 0) # snake lastFoodState)" for k
    using fullState_covered [OF drawn_inGrid, of lastFoodState k]
    by (simp add: fullState_def)
  have "logic lastFoodState = Inl NoReturn"
    by (rule logic_eat(1) [OF sn nh])
       (simp_all add: lastFood_free fd inGrid_def width_def height_def full del: set_simps)
  moreover have "\<not> gameOver lastFoodState" by (simp add: lastFoodState_def)
  moreover have "hd (snake lastFoodState) = (1, 0)" by (simp add: lastFoodState_def)
  ultimately show ?thesis
    using lastFood_free by (simp add: nh fd onSnake_iff inGrid_def width_def height_def)
qed

text \<open>
  Claim C5. In every reachable state, running or not, the cells of the body are pairwise
  distinct and there are at least three of them; \<open>initGame\<close> creates a body of three
  distinct cells; and a tick that returns from a body of distinct cells leaves a body
  of distinct cells, whether or not it ends the game.
\<close>

theorem body_distinct:
  "(\<forall>g. reachable g \<longrightarrow> distinct (snake g) \<and> 3 \<le> length (snake g))
   \<and> (\<forall>rs g0 g. initGame rs g0 = Some g \<longrightarrow> distinct (snake g) \<and> length (snake g) = 3)
   \<and> (\<forall>g g'. distinct (snake g) \<and> logic g = Inr g' \<longrightarrow> distinct (snake g'))"
  by (auto simp: reachable_body initGame_Some(1) logic_distinct)

text \<open>The start state, which \<open>initGame\<close> produces, and the state after its first tick.\<close>

theorem body_distinct_witness:
  "reachable startState \<and> distinct (snake startState) \<and> 3 \<le> length (snake startState)
   \<and> initGame someRand (globals0 someRand) = Some startState \<and> length (snake startState) = 3
   \<and> logic startState = Inr (startState\<lparr>snake := [(21, 10), (20, 10), (19, 10)]\<rparr>)
   \<and> distinct (snake (startState\<lparr>snake := [(21, 10), (20, 10), (19, 10)]\<rparr>))"
proof -
  have r: "reachable startState" using init_start by (rule reachable.init)
  have d: "distinct (snake startState)" "3 \<le> length (snake startState)"
    using body_distinct r by blast+
  have l: "length (snake startState) = 3"
    using body_distinct init_start by blast
  have "distinct (snake (startState\<lparr>snake := [(21, 10), (20, 10), (19, 10)]\<rparr>))"
    using body_distinct d(1) logic_start by blast
  with r d l init_start logic_start show ?thesis by blast
qed

text \<open>
  Claim C6. In a running game whose new head lies outside the grid, the tick sets
  \<open>gameOver\<close> and changes nothing else: body, food and score stay. Nothing is assumed
  about the body: the test of the bounds comes first, and decides also when the new
  head is a cell of the body.
\<close>

theorem tick_wall:
  assumes "\<not> gameOver g" and "snake g = h # t" and "newHead (dir g) h = (x, y)"
    and "x < 0 \<or> x \<ge> width \<or> y < 0 \<or> y \<ge> height"
  shows "logic g = Inr (g\<lparr>gameOver := True\<rparr>)"
  using assms(4) by (subst logic_cases [OF assms(2,3)]) (auto simp: inGrid_def)

text \<open>The head in column 39, moving right.\<close>

theorem tick_wall_witness:
  "logic wallState = Inr (wallState\<lparr>gameOver := True\<rparr>)"
  using tick_wall [of wallState "(39, 10)" "[(38, 10), (37, 10)]" 40 10]
  by (simp add: wallState_def startState_def width_def)

text \<open>
  Claim C7. In a running game whose new head is in the grid, off the body and not on
  the food, the tick returns a running game whose body is the new head followed by the
  old body without its last cell: the length is unchanged, and so are the score and the
  food.
\<close>

theorem tick_plain_move:
  assumes "\<not> gameOver g" and "snake g = h # t" and "newHead (dir g) h = nh"
    and "inGrid nh" and "nh \<notin> set (snake g)" and "nh \<noteq> food g"
  shows "\<exists>g'. logic g = Inr g' \<and> \<not> gameOver g' \<and> snake g' = nh # butlast (snake g)
           \<and> length (snake g') = length (snake g) \<and> score g' = score g \<and> food g' = food g"
  using assms(1,2,4-6) by (subst logic_cases [OF assms(2,3)]) simp

text \<open>The first tick of the start state.\<close>

theorem tick_plain_move_witness:
  "\<exists>g'. logic startState = Inr g' \<and> \<not> gameOver g'
        \<and> snake g' = [(21, 10), (20, 10), (19, 10)]
        \<and> length (snake g') = 3 \<and> score g' = 0 \<and> food g' = (5, 12)"
proof -
  have "\<exists>g'. logic startState = Inr g' \<and> \<not> gameOver g'
          \<and> snake g' = (21, 10) # butlast (snake startState)
          \<and> length (snake g') = length (snake startState)
          \<and> score g' = score startState \<and> food g' = food startState"
    by (rule tick_plain_move [where h = "(20, 10)" and t = "[(19, 10), (18, 10)]"])
       (simp_all add: startState_def inGrid_def width_def height_def)
  then obtain g' where "logic startState = Inr g'" "\<not> gameOver g'"
      "snake g' = (21, 10) # butlast (snake startState)"
      "score g' = score startState" "food g' = food startState"
    by blast
  then show ?thesis
    by (intro exI [of _ g']) (simp add: startState_def)
qed

text \<open>
  Claim C8. For a score that is not negative, the delay that the main loop computes is
  \<open>max 40 (120 - min 80 (score div 5))\<close>, in integer arithmetic; it depends on nothing
  but the score.
\<close>

theorem frameDelay_formula:
  "0 \<le> sc \<Longrightarrow> frameDelay sc = max 40 (120 - min 80 (sc div 5))"
  by (simp add: frameDelay_def baseDelayMs_def Let_def signed_divide_int_def sgn_if max_def)

text \<open>A score of 250 gives 70 milliseconds.\<close>

theorem frameDelay_formula_witness: "frameDelay 250 = 70"
  using frameDelay_formula [of 250] by simp

text \<open>
  Claim C9, as the code has it. \<open>STOP\<close> is the value of the direction only in the globals
  as static initialisation leaves them. \<open>initGame\<close> assigns \<open>RIGHT\<close>: in a freshly
  initialised game, before any key is read, the direction is \<open>RIGHT\<close>.
\<close>

theorem initGame_dir:
  "dir (globals0 rs) = STOP \<and> (\<forall>g0 g. initGame rs g0 = Some g \<longrightarrow> dir g = RIGHT)"
  by (simp add: globals0_def initGame_Some(2))

text \<open>The start state.\<close>

theorem initGame_dir_witness: "dir startState = RIGHT"
  using initGame_dir [of someRand] init_start by blast

text \<open>
  Claim C9 as stated fails: \<open>initGame\<close>, run on the globals of the program start,
  returns a game whose direction is \<open>RIGHT\<close>, not \<open>STOP\<close>.
\<close>

theorem initGame_dir_counterexample:
  "dir (globals0 someRand) = STOP
   \<and> map_option dir (initGame someRand (globals0 someRand)) = Some RIGHT"
  by (simp add: init_start) (simp add: globals0_def startState_def)

text \<open>
  Claim C10. In a running game whose new head is in the grid and equal to a cell of the
  body, the last cell included, the tick sets \<open>gameOver\<close> and changes nothing else: body,
  food and score stay.
\<close>

theorem tick_self_collision:
  assumes "\<not> gameOver g" and "snake g = h # t" and "newHead (dir g) h = nh"
    and "inGrid nh" and "nh \<in> set (snake g)"
  shows "logic g = Inr (g\<lparr>gameOver := True\<rparr>)"
  using assms(4,5) by (subst logic_cases [OF assms(2,3)]) simp

text \<open>The coiled snake: the new head is the last cell of the body.\<close>

theorem tick_self_collision_witness:
  "newHead (dir coilState) (hd (snake coilState)) = last (snake coilState)
   \<and> logic coilState = Inr (coilState\<lparr>gameOver := True\<rparr>)"
  using tick_self_collision [of coilState "(20, 10)" "[(20, 11), (19, 11), (19, 10)]" "(19, 10)"]
  by (simp add: coilState_def startState_def inGrid_def width_def height_def)

end
